theory Spec2Isabelle
  imports Complex_Main "HOL-Library.Word" "HOL-Library.Log_Nat"
begin

section \<open>Machine types of the harness\<close>

text \<open>
  \<^verbatim>\<open>size_t\<close> is a 64-bit unsigned word: \<open>+\<close>, \<open>-\<close> and \<open>*\<close> wrap around as in C++,
  \<open>div\<close> and \<open>mod\<close> are the unsigned operations. A C++ \<^verbatim>\<open>int\<close> that holds a rank or a step
  number is an \<open>int\<close>; converting it to \<^verbatim>\<open>size_t\<close> is \<open>of_int\<close>, which reduces modulo
  \<open>2 ^ 64\<close> as the C++ conversion does. The loop counters \<^verbatim>\<open>j\<close>, \<^verbatim>\<open>i\<close> and \<^verbatim>\<open>idx\<close> only
  count upwards from 0, up to the number of cells of a block, and are natural numbers;
  they are the source's \<^verbatim>\<open>int\<close> counters as long as a block has at most \<open>INT_MAX\<close>
  cells (the blocks of the test matrix have at most 45000).
\<close>

type_synonym size_t = "64 word"

definition INT_MAX :: nat where
  "INT_MAX = 2 ^ 31 - 1"

subsection \<open>Single precision arithmetic\<close>

text \<open>
  A \<^verbatim>\<open>float\<close> is modelled by the rational number it denotes. Every operation computes
  the exact result and rounds it to the nearest binary32 value (24 bits of precision,
  least exponent -126, ties to even). The harness only forms values below \<open>2 ^ 66\<close> in
  magnitude, so infinities and NaN do not arise and are not part of the model; on finite
  values the C++ comparison \<^verbatim>\<open>!=\<close> is inequality of the denoted numbers.
\<close>

type_synonym float32 = rat

definition rat_ilog2 :: "rat \<Rightarrow> int" where
  "rat_ilog2 x =
     (let (p, q) = quotient_of x;
          k = bitlen p - bitlen q
      in if 2 powi k \<le> x then k else k - 1)"

definition round_half_even :: "rat \<Rightarrow> int" where
  "round_half_even y =
     (let f = \<lfloor>y\<rfloor>; d = y - of_int f
      in if d < 1 / 2 then f
         else if 1 / 2 < d then f + 1
         else if even f then f else f + 1)"

definition f32_round :: "rat \<Rightarrow> float32" where
  "f32_round x =
     (if x = 0 then 0
      else let e = max (rat_ilog2 \<bar>x\<bar>) (- 126); q = 2 powi (e - 23)
           in of_int (round_half_even (x / q)) * q)"

definition f32_of_size :: "size_t \<Rightarrow> float32" where
  "f32_of_size n = f32_round (of_int (uint n))"

definition f32_of_int :: "int \<Rightarrow> float32" where
  "f32_of_int k = f32_round (of_int k)"

definition f32_add :: "float32 \<Rightarrow> float32 \<Rightarrow> float32" where
  "f32_add a b = f32_round (a + b)"

definition f32_mul :: "float32 \<Rightarrow> float32 \<Rightarrow> float32" where
  "f32_mul a b = f32_round (a * b)"

definition f32_div :: "float32 \<Rightarrow> float32 \<Rightarrow> float32" where
  "f32_div a b = f32_round (a / b)"

section \<open>The test matrix\<close>

text \<open>
  \<^verbatim>\<open>struct RunParams\<close>: a 2D decomposition of the writer processes and one of the reader
  processes.
\<close>

record RunParams =
  npx_w :: size_t
  npy_w :: size_t
  npx_r :: size_t
  npy_r :: size_t

definition mkRunParams :: "size_t \<Rightarrow> size_t \<Rightarrow> size_t \<Rightarrow> size_t \<Rightarrow> RunParams" where
  "mkRunParams xw yw xr yr = \<lparr>npx_w = xw, npy_w = yw, npx_r = xr, npy_r = yr\<rparr>"

definition CreateRunParams :: "RunParams list" where
  "CreateRunParams =
     [mkRunParams 1 1 1 1,
      mkRunParams 2 1 1 1,
      mkRunParams 1 2 1 1,
      mkRunParams 1 1 2 1,
      mkRunParams 1 1 1 2,
      mkRunParams 2 1 2 1,
      mkRunParams 2 1 1 2,
      mkRunParams 1 1 1 7,
      mkRunParams 1 7 1 1,
      mkRunParams 2 2 2 2,
      mkRunParams 3 5 1 1,
      mkRunParams 1 1 5 3]"

text \<open>
  \<^verbatim>\<open>TestCommon\<close> computes the number of writers and of readers of a run as the products
  of the decomposition; the run uses that many processes. The decompositions are
  written \<open>npx x npy\<close>, as \<^verbatim>\<open>TestCommon\<close> prints them.
\<close>

definition nwriters :: "RunParams \<Rightarrow> nat" where
  "nwriters p = unat (npx_w p * npy_w p)"

definition nreaders :: "RunParams \<Rightarrow> nat" where
  "nreaders p = unat (npx_r p * npy_r p)"

definition total_processes :: "RunParams \<Rightarrow> nat" where
  "total_processes p = nwriters p + nreaders p"

definition writer_decomposition :: "RunParams \<Rightarrow> nat \<times> nat" where
  "writer_decomposition p = (unat (npx_w p), unat (npy_w p))"

definition reader_decomposition :: "RunParams \<Rightarrow> nat \<times> nat" where
  "reader_decomposition p = (unat (npx_r p), unat (npy_r p))"

text \<open>The four parameterised tests: the number of steps and the two sleep times.\<close>

datatype test_case = SingleStep | MultipleSteps | SlowWriter | SlowReader


fun writer_sleeptime :: "test_case \<Rightarrow> nat" where
  "writer_sleeptime SlowWriter = 500"
| "writer_sleeptime _ = 0"

fun reader_sleeptime :: "test_case \<Rightarrow> nat" where
  "reader_sleeptime SlowReader = 500"
| "reader_sleeptime _ = 0"

section \<open>The value of a cell\<close>

text \<open>
  \<^verbatim>\<open>return 1000.0f * step + offsx * gndx + offsy / 1000.0f;\<close>
  The product \<^verbatim>\<open>offsx * gndx\<close> is computed in \<^verbatim>\<open>size_t\<close> and then converted; the other
  operations are single precision.
\<close>

definition GetValue :: "size_t \<Rightarrow> size_t \<Rightarrow> size_t \<Rightarrow> size_t \<Rightarrow> int \<Rightarrow> float32" where
  "GetValue gndx gndy offsx offsy step =
     f32_add (f32_add (f32_mul 1000 (f32_of_int step)) (f32_of_size (offsx * gndx)))
             (f32_div (f32_of_size offsy) 1000)"

section \<open>The layout of a process\<close>

text \<open>
  A \<^verbatim>\<open>Dims\<close> of the harness always has two entries. The layout of a process is the
  shape of the global array together with the offset and the extent of the block of the
  process.
\<close>

type_synonym Dims = "size_t \<times> size_t"

record layout =
  l_gndx :: size_t
  l_gndy :: size_t
  l_offsx :: size_t
  l_offsy :: size_t
  l_ndx :: size_t
  l_ndy :: size_t

text \<open>
  Modelled from the spec: the errors with which the calls of the engine fail (sections
  4.1, 4.3 and 6). The engine is not among the sources.
\<close>

datatype engine_error =
  InvalidSelection | UnknownVariable | InvalidState | DuplicateDefinition | StreamUnavailable

text \<open>
  What the harness can run into: \<^verbatim>\<open>%\<close> or \<^verbatim>\<open>/\<close> by zero and an access outside a vector
  (both undefined behaviour in C++), the two \<^verbatim>\<open>std::ios_base::failure\<close> exceptions it
  throws itself (the second carries rank, step, offsets, the received and the expected
  value), and an error of the engine.
\<close>

datatype failure =
    DivisionByZero
  | OutOfRange
  | MissingVariable
  | ReadError int int size_t size_t float32 float32
  | EngineFailure engine_error

section \<open>MainWriters\<close>

text \<open>
  \<^verbatim>\<open>size_t posx = rank % npx; size_t posy = rank / npx;\<close> with \<^verbatim>\<open>int rank\<close>: the rank is
  converted to \<^verbatim>\<open>size_t\<close> first.
\<close>

definition position :: "size_t \<Rightarrow> int \<Rightarrow> failure + size_t \<times> size_t" where
  "position npx rank =
     (if npx = 0 then Inl DivisionByZero
      else Inr (of_int rank mod npx, of_int rank div npx))"


text \<open>
  The two nested loops that fill \<^verbatim>\<open>myArray\<close>: \<^verbatim>\<open>idx\<close> starts at 0 and is incremented
  after every cell; row \<open>j\<close> runs over all columns \<open>i\<close>.
\<close>

definition fill_cells ::
  "(nat \<Rightarrow> nat \<Rightarrow> float32) \<Rightarrow> nat list \<Rightarrow> nat list \<Rightarrow> float32 list \<times> nat \<Rightarrow> float32 list \<times> nat"
where
  "fill_cells f js is s =
     foldl (\<lambda>s j. foldl (\<lambda>(a, idx) i. (a[idx := f j i], Suc idx)) s is) s js"

definition fill_block :: "layout \<Rightarrow> int \<Rightarrow> float32 list \<Rightarrow> float32 list" where
  "fill_block L step myArray =
     fst (fill_cells
           (\<lambda>j i. GetValue (l_gndx L) (l_gndy L)
                     (l_offsx L + of_nat j) (l_offsy L + of_nat i) step)
           [0..<unat (l_ndx L)] [0..<unat (l_ndy L)] (myArray, 0))"

text \<open>
  What a writer hands to the engine in one step: the selection of its variable
  (\<^verbatim>\<open>start\<close> and \<^verbatim>\<open>count\<close> of \<^verbatim>\<open>DefineVariable\<close>) and the contents of \<^verbatim>\<open>myArray\<close> when
  \<^verbatim>\<open>EndStep\<close> performs the deferred \<^verbatim>\<open>Put\<close>.
\<close>

record StepPayload =
  pl_start :: Dims
  pl_count :: Dims
  pl_data :: "float32 list"

definition writer_payload :: "layout \<Rightarrow> float32 list \<Rightarrow> StepPayload" where
  "writer_payload L myArray =
     \<lparr>pl_start = (l_offsx L, l_offsy L), pl_count = (l_ndx L, l_ndy L), pl_data = myArray\<rparr>"

text \<open>
  The step loop of \<^verbatim>\<open>MainWriters\<close>: fill \<^verbatim>\<open>myArray\<close>, then \<^verbatim>\<open>BeginStep\<close>, \<^verbatim>\<open>PutDeferred\<close>,
  \<^verbatim>\<open>EndStep\<close>. The result lists the payload of every step, in step order.
\<close>

fun writer_steps :: "layout \<Rightarrow> float32 list \<Rightarrow> int list \<Rightarrow> StepPayload list" where
  "writer_steps L myArray [] = []"
| "writer_steps L myArray (step # steps) =
     (let myArray' = fill_block L step myArray
      in writer_payload L myArray' # writer_steps L myArray' steps)"


section \<open>CheckData\<close>




section \<open>MainReaders: the selection of a reader\<close>

text \<open>
  The 2D decomposition of the global array among the readers. \<^verbatim>\<open>posx\<close> and \<^verbatim>\<open>posy\<close> are
  computed once, before the step loop; the block is computed in every step from the
  shape of the variable: floor division, and the last row and column of processes take
  the rest.
\<close>

definition reader_layout :: "size_t \<Rightarrow> size_t \<Rightarrow> size_t \<times> size_t \<Rightarrow> Dims \<Rightarrow> failure + layout" where
  "reader_layout npx npy pos shape =
     (let posx = fst pos; posy = snd pos;
          gndx = fst shape; gndy = snd shape
      in if npx = 0 \<or> npy = 0 then Inl DivisionByZero
         else
           let ndx = gndx div npx; ndy = gndy div npy;
               offsx = ndx * posx; offsy = ndy * posy;
               ndx' = (if posx = npx - 1 then gndx - ndx * (npx - 1) else ndx);
               ndy' = (if posy = npy - 1 then gndy - ndy * (npy - 1) else ndy)
           in Inr \<lparr>l_gndx = gndx, l_gndy = gndy, l_offsx = offsx, l_offsy = offsy,
                   l_ndx = ndx', l_ndy = ndy'\<rparr>)"

definition reader_selection :: "size_t \<Rightarrow> size_t \<Rightarrow> int \<Rightarrow> Dims \<Rightarrow> failure + layout" where
  "reader_selection npx npy rank shape =
     (case position npx rank of
        Inl e \<Rightarrow> Inl e
      | Inr pos \<Rightarrow> reader_layout npx npy pos shape)"

text \<open>The cell \<open>(x, y)\<close> of the global array lies in the block \<open>start\<close>, \<open>count\<close>.\<close>

definition in_selection :: "Dims \<Rightarrow> Dims \<Rightarrow> nat \<Rightarrow> nat \<Rightarrow> bool" where
  "in_selection start count x y \<longleftrightarrow>
     unat (fst start) \<le> x \<and> x < unat (fst start) + unat (fst count) \<and>
     unat (snd start) \<le> y \<and> y < unat (snd start) + unat (snd count)"

definition in_block :: "layout \<Rightarrow> nat \<Rightarrow> nat \<Rightarrow> bool" where
  "in_block L x y = in_selection (l_offsx L, l_offsy L) (l_ndx L, l_ndy L) x y"

section \<open>The engine: selections and redistribution\<close>



text \<open>
  Modelled from the spec: the row-major linearization of a selection (section 4.2), as
  the index of the global cell \<open>(x, y)\<close> in the buffer of the selection.
\<close>

definition linear_index :: "Dims \<Rightarrow> Dims \<Rightarrow> nat \<Rightarrow> nat \<Rightarrow> nat" where
  "linear_index start count x y =
     (x - unat (fst start)) * unat (snd count) + (y - unat (snd start))"

text \<open>
  Modelled from the spec: steps 2 and 3 of the algorithm of the Redistribution Engine
  (section 4.4) for one payload. Element \<open>k\<close> of the reader's buffer is the cell
  \<open>(x, y)\<close> of the reader's selection in row-major order. Where that cell lies in the
  selection of the payload, the element is copied from the payload's buffer; every
  other element keeps its contents (step 5). A payload whose buffer is shorter than its
  selection provides no element beyond its end.
\<close>

definition copy_payload :: "Dims \<times> Dims \<Rightarrow> float32 list \<Rightarrow> StepPayload \<Rightarrow> float32 list" where
  "copy_payload sel dest p =
     map (\<lambda>k.
            let start = fst sel; count = snd sel;
                x = unat (fst start) + k div unat (snd count);
                y = unat (snd start) + k mod unat (snd count);
                src = linear_index (pl_start p) (pl_count p) x y
            in if k < unat (fst count) * unat (snd count) \<and>
                  in_selection (pl_start p) (pl_count p) x y \<and> src < length (pl_data p)
               then pl_data p ! src
               else dest ! k)
         [0..<length dest]"

text \<open>
  Modelled from the spec: the Redistribution Engine (section 4.4, steps 1 and 4). The
  payloads of the sealed step are processed in their order of arrival, so where two of
  them overlap the later one wins.
\<close>

definition Get :: "StepPayload list \<Rightarrow> Dims \<times> Dims \<Rightarrow> float32 list \<Rightarrow> float32 list" where
  "Get payloads sel dest = foldl (copy_payload sel) dest payloads"


section \<open>MainReaders: one step\<close>

text \<open>\<^verbatim>\<open>std::vector::resize\<close>: new elements are zero.\<close>

definition resize :: "nat \<Rightarrow> float32 list \<Rightarrow> float32 list" where
  "resize n xs = take n xs @ replicate (n - length xs) 0"




section \<open>The step controller and the step loop of MainReaders\<close>




datatype controller_state = Idle | StepActive nat | Closed











section \<open>The variable registry and the Python binding\<close>

text \<open>
  Modelled from the spec: the Variable Registry of section 4.1 and \<^verbatim>\<open>DefineVariable\<close> of
  section 6. \<^verbatim>\<open>ADIOSPy::DefineVariable\<close>, which \<^verbatim>\<open>EnginePy.h\<close> calls, is declared in
  \<^verbatim>\<open>adios2/ADIOSPy.h\<close>, a file that is not among the sources. A registry lists the
  variables of one process in the order of their definition; the handle of a
  variable is its position in the list, so a handle stays valid and keeps denoting the
  same variable when later variables are defined. \<^verbatim>\<open>Define\<close> fails with
  \<^verbatim>\<open>DuplicateDefinition\<close> if the name is already defined with a different shape or type
  and returns the existing handle if both are identical; \<^verbatim>\<open>Lookup\<close> finds the handle
  of a name.
\<close>

record 't variable =
  v_name :: string
  v_type :: 't
  v_shape :: "nat list"
  v_start :: "nat list"
  v_count :: "nat list"

type_synonym 't registry = "'t variable list"

type_synonym handle = nat

text \<open>Modelled from the spec: \<^verbatim>\<open>Lookup(name)\<close> of section 4.1; \<open>None\<close> is \<^verbatim>\<open>NotFound\<close>.\<close>

fun Lookup :: "'t registry \<Rightarrow> string \<Rightarrow> handle option" where
  "Lookup [] name = None"
| "Lookup (v # vs) name =
     (if v_name v = name then Some 0 else map_option Suc (Lookup vs name))"

text \<open>
  Modelled from the spec: \<^verbatim>\<open>Define\<close> of section 4.1, with the optional local offset and
  count of \<^verbatim>\<open>DefineVariable\<close> (section 6). A new name is registered at the end of the
  list.
\<close>

definition Define ::
  "'t registry \<Rightarrow> string \<Rightarrow> 't \<Rightarrow> nat list \<Rightarrow> nat list \<Rightarrow> nat list \<Rightarrow>
   engine_error + handle \<times> 't registry"
where
  "Define reg name ty shape start count =
     (case Lookup reg name of
        None \<Rightarrow>
          Inr (length reg,
               reg @ [\<lparr>v_name = name, v_type = ty, v_shape = shape,
                       v_start = start, v_count = count\<rparr>])
      | Some h \<Rightarrow>
          if v_type (reg ! h) = ty \<and> v_shape (reg ! h) = shape then Inr (h, reg)
          else Inl DuplicateDefinition)"

text \<open>
  \<^verbatim>\<open>VariablePy\<close> is declared in \<^verbatim>\<open>adios2/VariablePy.h\<close>, not among the sources; these are
  the members \<^verbatim>\<open>EnginePy.h\<close> uses. \<^verbatim>\<open>m_VariablePtr\<close> is a \<^verbatim>\<open>void *\<close>: \<open>None\<close> is the null
  pointer, \<open>Some h\<close> the address of the variable with handle \<open>h\<close>.
\<close>

record VariablePy =
  m_Name :: string
  m_LocalDimensions :: "nat list"
  m_GlobalDimensions :: "nat list"
  m_GlobalOffsets :: "nat list"
  m_VariablePtr :: "handle option"
  m_IsVariableDefined :: bool

text \<open>
  \<^verbatim>\<open>EnginePy::DefineVariableInADIOS<T>\<close>. The template argument is the first parameter.
  The call of \<^verbatim>\<open>DefineVariable\<close> passes the name, the local dimensions, the global
  dimensions and the global offsets: the count, the shape and the start of the variable.
  An exception of \<^verbatim>\<open>DefineVariable\<close> leaves the \<^verbatim>\<open>VariablePy\<close> as it was.
\<close>

definition DefineVariableInADIOS ::
  "'t \<Rightarrow> 't registry \<Rightarrow> VariablePy \<Rightarrow> engine_error + 't registry \<times> VariablePy"
where
  "DefineVariableInADIOS T adios variable =
     (case Define adios (m_Name variable) T (m_GlobalDimensions variable)
             (m_GlobalOffsets variable) (m_LocalDimensions variable) of
        Inl e \<Rightarrow> Inl e
      | Inr (var, adios') \<Rightarrow>
          Inr (adios', variable\<lparr>m_VariablePtr := Some var, m_IsVariableDefined := True\<rparr>))"

text \<open>
  \<^verbatim>\<open>EnginePy::WriteVariableInADIOS<T>\<close> casts \<^verbatim>\<open>m_VariablePtr\<close> to \<^verbatim>\<open>Variable<T> *\<close> and
  dereferences it, without a check. The result is \<open>None\<close> where that is undefined
  behaviour (a null pointer, or a pointer to no variable of element type \<open>T\<close>), and
  otherwise the arguments with which \<^verbatim>\<open>m_Engine->Write\<close> is called. (\<^verbatim>\<open>Engine::Write\<close>
  itself is declared in \<^verbatim>\<open>adios2/core/Engine.h\<close>, not among the sources.)
\<close>

definition WriteVariableInADIOS ::
  "'t \<Rightarrow> 't registry \<Rightarrow> VariablePy \<Rightarrow> 'a \<Rightarrow> (handle \<times> 'a) option"
where
  "WriteVariableInADIOS T adios variable array =
     (case m_VariablePtr variable of
        None \<Rightarrow> None
      | Some var \<Rightarrow>
          if var < length adios \<and> v_type (adios ! var) = T then Some (var, array)
          else None)"

section \<open>Properties\<close>

subsection \<open>The loops of the harness\<close>




lemma fill_row:
  "foldl (\<lambda>(a, idx) i. (a[idx := g i], Suc idx)) (a, idx) is = (a', idx') \<Longrightarrow>
     idx' = idx + length is \<and> length a' = length a \<and>
     (\<forall>k < length a. a' ! k = (if idx \<le> k \<and> k < idx + length is then g (is ! (k - idx)) else a ! k))"
proof (induction "is" arbitrary: a idx)
  case Nil
  then show ?case by auto
next
  case (Cons i "is")
  from Cons.prems have "foldl (\<lambda>(a, idx) i. (a[idx := g i], Suc idx)) (a[idx := g i], Suc idx) is = (a', idx')"
    by simp
  from Cons.IH[OF this] have 1: "idx' = Suc idx + length is" and 2: "length a' = length a"
    and 3: "\<forall>k < length a. a' ! k =
          (if Suc idx \<le> k \<and> k < Suc idx + length is then g (is ! (k - Suc idx)) else a[idx := g i] ! k)"
    by simp_all
  have "a' ! k = (if idx \<le> k \<and> k < idx + length (i # is) then g ((i # is) ! (k - idx)) else a ! k)"
    if "k < length a" for k
  proof (cases "k = idx")
    case True
    then show ?thesis using 3 that by simp
  next
    case False
    then show ?thesis using 3 that by (auto simp: Suc_diff_le nth_Cons')
  qed
  then show ?case using 1 2 by simp
qed

lemma fill_cells:
  "fill_cells f js is (a, idx) = (a', idx') \<Longrightarrow>
     idx' = idx + length js * length is \<and> length a' = length a \<and>
     (\<forall>k < length a. k < idx \<or> idx + length js * length is \<le> k \<longrightarrow> a' ! k = a ! k) \<and>
     (\<forall>m < length js. \<forall>n < length is. idx + m * length is + n < length a \<longrightarrow>
         a' ! (idx + m * length is + n) = f (js ! m) (is ! n))"
proof (induction js arbitrary: a idx)
  case Nil
  then show ?case by (simp add: fill_cells_def)
next
  case (Cons j js)
  obtain a1 i1 where row: "foldl (\<lambda>(a, idx) i. (a[idx := f j i], Suc idx)) (a, idx) is = (a1, i1)"
    by (cases "foldl (\<lambda>(a, idx) i. (a[idx := f j i], Suc idx)) (a, idx) is") 
  from fill_row[OF row] have i1: "i1 = idx + length is" and l1: "length a1 = length a"
    and n1: "\<forall>k < length a. a1 ! k = (if idx \<le> k \<and> k < idx + length is then f j (is ! (k - idx)) else a ! k)"
    by simp_all
  from Cons.prems row have "fill_cells f js is (a1, i1) = (a', idx')"
    by (simp add: fill_cells_def)
  from Cons.IH[OF this] have r1: "idx' = i1 + length js * length is" and r2: "length a' = length a1"
    and r3: "\<forall>k < length a1. k < i1 \<or> i1 + length js * length is \<le> k \<longrightarrow> a' ! k = a1 ! k"
    and r4: "\<forall>m < length js. \<forall>n < length is. i1 + m * length is + n < length a1 \<longrightarrow>
         a' ! (i1 + m * length is + n) = f (js ! m) (is ! n)"
    by simp_all
  have A: "a' ! k = a ! k" if "k < length a" "k < idx \<or> idx + length (j # js) * length is \<le> k" for k
  proof -
    have "a' ! k = a1 ! k" using r3 that l1 i1 by auto
    also have "\<dots> = a ! k" using n1 that by auto
    finally show ?thesis .
  qed
  have B: "a' ! (idx + m * length is + n) = f ((j # js) ! m) (is ! n)"
    if "m < length (j # js)" "n < length is" "idx + m * length is + n < length a" for m n
  proof (cases m)
    case 0
    have "a' ! (idx + n) = a1 ! (idx + n)" using r3 that l1 i1 0 by auto
    also have "\<dots> = f j (is ! n)" using n1 that 0 by auto
    finally show ?thesis using 0 by simp
  next
    case (Suc m')
    have "a' ! (i1 + m' * length is + n) = f (js ! m') (is ! n)"
      using r4 that Suc l1 i1 by (auto simp: add.assoc)
    moreover have "i1 + m' * length is + n = idx + m * length is + n"
      using i1 Suc by simp
    ultimately show ?thesis using Suc by simp
  qed
  show ?case using r1 i1 r2 l1 A B by (simp add: add.assoc)
qed

lemma length_fill_block [simp]: "length (fill_block L step a) = length a"
proof -
  obtain a' i' where "fill_cells (\<lambda>j i. GetValue (l_gndx L) (l_gndy L)
                     (l_offsx L + of_nat j) (l_offsy L + of_nat i) step)
           [0..<unat (l_ndx L)] [0..<unat (l_ndy L)] (a, 0) = (a', i')"
    by (meson surj_pair)
  from fill_cells[OF this] this show ?thesis by (simp add: fill_block_def)
qed



lemma length_writer_steps [simp]: "length (writer_steps L a steps) = length steps"
  by (induction steps arbitrary: a) (simp_all add: Let_def)




subsection \<open>The value of a cell\<close>

text \<open>
  Claim C9. \<^verbatim>\<open>GetValue\<close> does not depend on its \<^verbatim>\<open>gndy\<close> argument: the value of a cell
  is determined by the x-extent of the global array, the global coordinates of the cell
  and the step.
\<close>

theorem GetValue_independent_of_gndy:
  "GetValue gndx gndy x y step = GetValue gndx gndy' x y step"
  by (simp add: GetValue_def)




subsection \<open>The selections of the readers\<close>

text \<open>
  One dimension first, on natural numbers: \<open>n\<close> blocks of \<open>g div n\<close> cells, the last one
  extended to the end, split \<open>g\<close> cells without gap or overlap. The operations of the
  source on \<^verbatim>\<open>size_t\<close> compute these blocks without wrapping around.
\<close>

lemma block_bounds:
  fixes n g :: nat
  assumes n: "0 < n" and p: "p < n"
  shows "(g div n) * p + (if p = n - 1 then g - (g div n) * (n - 1) else g div n) \<le> g"
    and "(g div n) * (n - 1) \<le> g"
proof -
  let ?b = "g div n"
  have bn: "?b * n \<le> g" by (simp add: mult.commute)
  have "?b * (n - 1) + ?b = ?b * n" using n by (simp add: algebra_simps mult_eq_if)
  then have last: "?b * (n - 1) + ?b \<le> g" using bn by simp
  then show 3: "?b * (n - 1) \<le> g" by simp
  show "?b * p + (if p = n - 1 then g - ?b * (n - 1) else ?b) \<le> g"
  proof (cases "p = n - 1")
    case True
    then show ?thesis using 3 by simp
  next
    case False
    then have "p + 1 \<le> n - 1" using p by simp
    then have "?b * (p + 1) \<le> ?b * (n - 1)" by (rule mult_le_mono2)
    then show ?thesis using False 3 by (simp add: algebra_simps)
  qed
qed

lemma block_positive:
  fixes n g :: nat
  assumes n: "0 < n" "n \<le> g"
  shows "0 < (if p = n - 1 then g - (g div n) * (n - 1) else g div n)"
proof -
  let ?b = "g div n"
  have b: "0 < ?b" using n by (simp add: div_greater_zero_iff)
  have bn: "?b * n \<le> g" by (simp add: mult.commute)
  have "?b * (n - 1) + ?b = ?b * n" using n by (simp add: algebra_simps mult_eq_if)
  then have "?b * (n - 1) + ?b \<le> g" using bn by simp
  then show ?thesis using b by auto
qed

lemma block_cover:
  fixes n g :: nat
  assumes n: "0 < n" "n \<le> g" and x: "x < g"
  shows "\<exists>p < n. (g div n) * p \<le> x \<and>
           x < (g div n) * p + (if p = n - 1 then g - (g div n) * (n - 1) else g div n)"
proof -
  let ?b = "g div n"
  have b: "0 < ?b" using n by (simp add: div_greater_zero_iff)
  have 3: "?b * (n - 1) \<le> g" using block_bounds(2)[OF n(1), of 0] n by simp
  show ?thesis
  proof (cases "x div ?b < n - 1")
    case True
    have "?b * (x div ?b) \<le> x" by simp
    moreover have "x < ?b * (x div ?b) + ?b"
      using b by (metis add.commute mod_less_divisor mult_div_mod_eq nat_add_left_cancel_less)
    ultimately show ?thesis using True by (intro exI[of _ "x div ?b"]) auto
  next
    case False
    then have "n - 1 \<le> x div ?b" by simp
    then have "?b * (n - 1) \<le> ?b * (x div ?b)" by (rule mult_le_mono2)
    also have "\<dots> \<le> x" by simp
    finally have "?b * (n - 1) \<le> x" .
    then show ?thesis using n x 3 by (intro exI[of _ "n - 1"]) auto
  qed
qed

lemma block_unique:
  fixes n g :: nat
  assumes n: "0 < n" "n \<le> g"
    and p: "p < n" "(g div n) * p \<le> x"
           "x < (g div n) * p + (if p = n - 1 then g - (g div n) * (n - 1) else g div n)"
    and q: "q < n" "(g div n) * q \<le> x"
           "x < (g div n) * q + (if q = n - 1 then g - (g div n) * (n - 1) else g div n)"
  shows "p = q"
proof -
  let ?b = "g div n"
  have *: False if "p' < q'" "q' < n" "?b * q' \<le> x"
      "x < ?b * p' + (if p' = n - 1 then g - ?b * (n - 1) else ?b)" for p' q'
  proof -
    from that have ne: "p' \<noteq> n - 1" by auto
    from that have "p' + 1 \<le> q'" by simp
    then have "?b * (p' + 1) \<le> ?b * q'" by (rule mult_le_mono2)
    with that ne show False by (simp add: algebra_simps)
  qed
  show ?thesis
  proof (rule ccontr)
    assume "p \<noteq> q"
    then consider "p < q" | "q < p" by (cases p q rule: linorder_cases) auto
    then show False using *[of p q] *[of q p] p q by cases auto
  qed
qed

lemma unat_mult_le:
  fixes a b c :: "'a::len word"
  assumes "unat a * unat b \<le> unat c"
  shows "unat (a * b) = unat a * unat b"
proof -
  have "unat c < 2 ^ LENGTH('a)" by simp
  with assms have "unat a * unat b < 2 ^ LENGTH('a)" by (rule le_less_trans)
  then show ?thesis by (simp only: unat_mult_lem)
qed

lemma reader_block_unat:
  fixes g n p :: size_t
  assumes n: "n \<noteq> 0" and p: "unat p < unat n"
  shows "unat ((g div n) * p) = (unat g div unat n) * unat p"
    and "unat (if p = n - 1 then g - (g div n) * (n - 1) else g div n) =
           (if unat p = unat n - 1 then unat g - (unat g div unat n) * (unat n - 1)
            else unat g div unat n)"
proof -
  let ?b = "unat g div unat n"
  have n0: "0 < unat n" using n by (simp add: unat_gt_0)
  have d: "unat (g div n) = ?b" by (rule unat_div)
  have bn: "?b * unat n \<le> unat g" by (simp add: mult.commute)
  have "unat p \<le> unat n" using p by simp
  then have "?b * unat p \<le> ?b * unat n" by (rule mult_le_mono2)
  then have "?b * unat p \<le> unat g" using bn by (rule le_trans)
  then have "unat (g div n) * unat p \<le> unat g" by (simp only: d)
  then have "unat ((g div n) * p) = unat (g div n) * unat p" by (rule unat_mult_le)
  then show "unat ((g div n) * p) = ?b * unat p" by (simp only: d)
  have m1: "unat (n - 1) = unat n - 1" using n by (rule unat_minus_one)
  have b3: "?b * (unat n - 1) \<le> unat g" using block_bounds(2)[OF n0, of 0] n0 by simp
  then have le: "unat (g div n) * unat (n - 1) \<le> unat g" by (simp only: d m1)
  then have "unat ((g div n) * (n - 1)) = unat (g div n) * unat (n - 1)" by (rule unat_mult_le)
  then have prod: "unat ((g div n) * (n - 1)) = ?b * (unat n - 1)" by (simp only: d m1)
  then have "(g div n) * (n - 1) \<le> g" using b3 by (simp only: word_le_nat_alt)
  then have "unat (g - (g div n) * (n - 1)) = unat g - unat ((g div n) * (n - 1))"
    by (rule unat_sub)
  then have sub: "unat (g - (g div n) * (n - 1)) = unat g - ?b * (unat n - 1)"
    by (simp only: prod)
  have eq: "p = n - 1 \<longleftrightarrow> unat p = unat n - 1"
    by (simp only: word_unat_eq_iff m1)
  show "unat (if p = n - 1 then g - (g div n) * (n - 1) else g div n) =
           (if unat p = unat n - 1 then unat g - ?b * (unat n - 1) else ?b)"
  proof (cases "p = n - 1")
    case True
    then show ?thesis using sub eq by simp
  next
    case False
    then show ?thesis using d eq by simp
  qed
qed

lemma position_unat:
  assumes "npx \<noteq> 0" "0 \<le> rank" "rank < 2 ^ 64"
  shows "\<exists>px py. position npx rank = Inr (px, py) \<and>
           unat px = nat rank mod unat npx \<and> unat py = nat rank div unat npx"
proof -
  have "nat rank < 2 ^ 64" using assms by (simp add: nat_less_iff)
  then have "unat (of_nat (nat rank) :: size_t) = nat rank"
    by (simp add: unat_of_nat)
  then have "unat (of_int rank :: size_t) = nat rank"
    using assms(2) by (simp only: word_of_int_nat)
  then show ?thesis using assms(1) by (simp add: position_def unat_mod unat_div)
qed

lemma reader_layout_unat:
  assumes n: "npx \<noteq> 0" "npy \<noteq> 0"
    and p: "unat px < unat npx" "unat py < unat npy"
  shows "\<exists>L. reader_layout npx npy (px, py) (gndx, gndy) = Inr L \<and>
           l_gndx L = gndx \<and> l_gndy L = gndy \<and>
           unat (l_offsx L) = (unat gndx div unat npx) * unat px \<and>
           unat (l_offsy L) = (unat gndy div unat npy) * unat py \<and>
           unat (l_ndx L) =
             (if unat px = unat npx - 1 then unat gndx - (unat gndx div unat npx) * (unat npx - 1)
              else unat gndx div unat npx) \<and>
           unat (l_ndy L) =
             (if unat py = unat npy - 1 then unat gndy - (unat gndy div unat npy) * (unat npy - 1)
              else unat gndy div unat npy)"
  using n reader_block_unat[OF n(1) p(1)] reader_block_unat[OF n(2) p(2)]
  by (simp add: reader_layout_def Let_def)

lemma reader_selection_unat:
  assumes n: "npx \<noteq> 0" "npy \<noteq> 0"
    and r: "0 \<le> rank" "nat rank < unat npx * unat npy" "rank < 2 ^ 64"
  shows "\<exists>L. reader_selection npx npy rank (gndx, gndy) = Inr L \<and>
           l_gndx L = gndx \<and> l_gndy L = gndy \<and>
           unat (l_offsx L) = (unat gndx div unat npx) * (nat rank mod unat npx) \<and>
           unat (l_offsy L) = (unat gndy div unat npy) * (nat rank div unat npx) \<and>
           unat (l_ndx L) =
             (if nat rank mod unat npx = unat npx - 1
              then unat gndx - (unat gndx div unat npx) * (unat npx - 1)
              else unat gndx div unat npx) \<and>
           unat (l_ndy L) =
             (if nat rank div unat npx = unat npy - 1
              then unat gndy - (unat gndy div unat npy) * (unat npy - 1)
              else unat gndy div unat npy)"
proof -
  from position_unat[OF n(1) r(1) r(3)] obtain px py where
    pos: "position npx rank = Inr (px, py)" and
    px: "unat px = nat rank mod unat npx" and py: "unat py = nat rank div unat npx"
    by blast
  have n0: "0 < unat npx" using n(1) by (simp add: unat_gt_0)
  have 1: "unat px < unat npx" using px n0 by simp
  have 2: "unat py < unat npy" using py r(2) by (simp add: less_mult_imp_div_less mult.commute)
  from reader_layout_unat[OF n 1 2] show ?thesis
    using pos by (simp add: reader_selection_def px py)
qed

lemma rank_less_2p64: "nat rank < n \<Longrightarrow> n \<le> INT_MAX \<Longrightarrow> rank < 2 ^ 64"
  by (simp add: INT_MAX_def nat_less_iff)

text \<open>
  Claim C7. Let the readers be decomposed \<open>npx x npy\<close> with \<open>1 \<le> npx \<le> gndx\<close> and
  \<open>1 \<le> npy \<le> gndy\<close>; the reader group has \<open>npx * npy\<close> processes, a number that fits
  the \<^verbatim>\<open>int\<close> in which the harness holds ranks and group sizes. Then every rank computes
  a selection with \<open>offset + count \<le> shape\<close> and a positive count in both dimensions, no
  cell lies in the selections of two ranks, and every cell of the global array lies in
  the selection of some rank.
\<close>

theorem reader_selection_tiling:
  assumes npx: "1 \<le> npx" "npx \<le> gndx" and npy: "1 \<le> npy" "npy \<le> gndy"
    and fit: "unat npx * unat npy \<le> INT_MAX"
  shows "(\<forall>rank. 0 \<le> rank \<and> rank < int (unat npx * unat npy) \<longrightarrow>
            (\<exists>L. reader_selection npx npy rank (gndx, gndy) = Inr L \<and>
                 unat (l_offsx L) + unat (l_ndx L) \<le> unat gndx \<and>
                 unat (l_offsy L) + unat (l_ndy L) \<le> unat gndy \<and>
                 0 < unat (l_ndx L) \<and> 0 < unat (l_ndy L))) \<and>
         (\<forall>r1 r2 L1 L2 x y.
            0 \<le> r1 \<and> r1 < int (unat npx * unat npy) \<and>
            0 \<le> r2 \<and> r2 < int (unat npx * unat npy) \<and>
            reader_selection npx npy r1 (gndx, gndy) = Inr L1 \<and>
            reader_selection npx npy r2 (gndx, gndy) = Inr L2 \<and>
            in_block L1 x y \<and> in_block L2 x y \<longrightarrow> r1 = r2) \<and>
         (\<forall>x y. x < unat gndx \<and> y < unat gndy \<longrightarrow>
            (\<exists>rank L. 0 \<le> rank \<and> rank < int (unat npx * unat npy) \<and>
                 reader_selection npx npy rank (gndx, gndy) = Inr L \<and> in_block L x y))"
proof -
  let ?nx = "unat npx" and ?ny = "unat npy" and ?gx = "unat gndx" and ?gy = "unat gndy"
  let ?cx = "\<lambda>p. if p = ?nx - 1 then ?gx - (?gx div ?nx) * (?nx - 1) else ?gx div ?nx"
  let ?cy = "\<lambda>p. if p = ?ny - 1 then ?gy - (?gy div ?ny) * (?ny - 1) else ?gy div ?ny"
  have nz: "npx \<noteq> 0" "npy \<noteq> 0" using npx(1) npy(1) by auto
  have n0: "0 < ?nx" "0 < ?ny" using nz by (simp_all add: unat_gt_0)
  have le: "?nx \<le> ?gx" "?ny \<le> ?gy" using npx(2) npy(2) by (simp_all add: word_le_nat_alt)
  have sel: "\<exists>L. reader_selection npx npy rank (gndx, gndy) = Inr L \<and>
           unat (l_offsx L) = (?gx div ?nx) * (nat rank mod ?nx) \<and>
           unat (l_offsy L) = (?gy div ?ny) * (nat rank div ?nx) \<and>
           unat (l_ndx L) = ?cx (nat rank mod ?nx) \<and>
           unat (l_ndy L) = ?cy (nat rank div ?nx)"
    if "0 \<le> rank" "rank < int (?nx * ?ny)" for rank
  proof -
    have r: "nat rank < ?nx * ?ny" using that by (simp add: nat_less_iff)
    from reader_selection_unat[OF nz that(1) r rank_less_2p64[OF r fit]]
    show ?thesis by blast
  qed
  have pos: "nat rank mod ?nx < ?nx" "nat rank div ?nx < ?ny"
    if "0 \<le> rank" "rank < int (?nx * ?ny)" for rank
  proof -
    have r: "nat rank < ?nx * ?ny" using that by (simp add: nat_less_iff)
    show "nat rank mod ?nx < ?nx" using n0 by simp
    show "nat rank div ?nx < ?ny" using r by (simp add: less_mult_imp_div_less mult.commute)
  qed
  have A: "\<exists>L. reader_selection npx npy rank (gndx, gndy) = Inr L \<and>
                 unat (l_offsx L) + unat (l_ndx L) \<le> ?gx \<and>
                 unat (l_offsy L) + unat (l_ndy L) \<le> ?gy \<and>
                 0 < unat (l_ndx L) \<and> 0 < unat (l_ndy L)"
    if "0 \<le> rank \<and> rank < int (?nx * ?ny)" for rank
  proof -
    from that have r: "0 \<le> rank" "rank < int (?nx * ?ny)" by simp_all
    from sel[OF r] obtain L where L: "reader_selection npx npy rank (gndx, gndy) = Inr L"
      "unat (l_offsx L) = (?gx div ?nx) * (nat rank mod ?nx)"
      "unat (l_offsy L) = (?gy div ?ny) * (nat rank div ?nx)"
      "unat (l_ndx L) = ?cx (nat rank mod ?nx)"
      "unat (l_ndy L) = ?cy (nat rank div ?nx)" by blast
    note bx = block_bounds(1)[OF n0(1) pos(1)[OF r], of ?gx]
      block_positive[OF n0(1) le(1), of "nat rank mod ?nx"]
    note by' = block_bounds(1)[OF n0(2) pos(2)[OF r], of ?gy]
      block_positive[OF n0(2) le(2), of "nat rank div ?nx"]
    show ?thesis using L(1) bx by' unfolding L(2-5)[symmetric] by blast
  qed
  have B: "r1 = r2"
    if "0 \<le> r1 \<and> r1 < int (?nx * ?ny) \<and> 0 \<le> r2 \<and> r2 < int (?nx * ?ny) \<and>
        reader_selection npx npy r1 (gndx, gndy) = Inr L1 \<and>
        reader_selection npx npy r2 (gndx, gndy) = Inr L2 \<and>
        in_block L1 x y \<and> in_block L2 x y" for r1 r2 L1 L2 x y
  proof -
    from that have r1: "0 \<le> r1" "r1 < int (?nx * ?ny)" and r2: "0 \<le> r2" "r2 < int (?nx * ?ny)"
      and s1: "reader_selection npx npy r1 (gndx, gndy) = Inr L1"
      and s2: "reader_selection npx npy r2 (gndx, gndy) = Inr L2"
      and b1: "in_block L1 x y" and b2: "in_block L2 x y" by simp_all
    from sel[OF r1] s1 have L1:
      "unat (l_offsx L1) = (?gx div ?nx) * (nat r1 mod ?nx)"
      "unat (l_offsy L1) = (?gy div ?ny) * (nat r1 div ?nx)"
      "unat (l_ndx L1) = ?cx (nat r1 mod ?nx)"
      "unat (l_ndy L1) = ?cy (nat r1 div ?nx)" by auto
    from sel[OF r2] s2 have L2:
      "unat (l_offsx L2) = (?gx div ?nx) * (nat r2 mod ?nx)"
      "unat (l_offsy L2) = (?gy div ?ny) * (nat r2 div ?nx)"
      "unat (l_ndx L2) = ?cx (nat r2 mod ?nx)"
      "unat (l_ndy L2) = ?cy (nat r2 div ?nx)" by auto
    from b1 have x1: "(?gx div ?nx) * (nat r1 mod ?nx) \<le> x"
        "x < (?gx div ?nx) * (nat r1 mod ?nx) + ?cx (nat r1 mod ?nx)"
      and y1: "(?gy div ?ny) * (nat r1 div ?nx) \<le> y"
        "y < (?gy div ?ny) * (nat r1 div ?nx) + ?cy (nat r1 div ?nx)"
      unfolding in_block_def in_selection_def fst_conv snd_conv L1 by blast+
    from b2 have x2: "(?gx div ?nx) * (nat r2 mod ?nx) \<le> x"
        "x < (?gx div ?nx) * (nat r2 mod ?nx) + ?cx (nat r2 mod ?nx)"
      and y2: "(?gy div ?ny) * (nat r2 div ?nx) \<le> y"
        "y < (?gy div ?ny) * (nat r2 div ?nx) + ?cy (nat r2 div ?nx)"
      unfolding in_block_def in_selection_def fst_conv snd_conv L2 by blast+
    have m: "nat r1 mod ?nx = nat r2 mod ?nx"
      by (rule block_unique[OF n0(1) le(1) pos(1)[OF r1] x1 pos(1)[OF r2] x2])
    have d: "nat r1 div ?nx = nat r2 div ?nx"
      by (rule block_unique[OF n0(2) le(2) pos(2)[OF r1] y1 pos(2)[OF r2] y2])
    have "nat r1 = nat r2" using m d by (metis div_mult_mod_eq)
    then show ?thesis using r1(1) r2(1) by simp
  qed
  have C: "\<exists>rank L. 0 \<le> rank \<and> rank < int (?nx * ?ny) \<and>
                 reader_selection npx npy rank (gndx, gndy) = Inr L \<and> in_block L x y"
    if "x < ?gx \<and> y < ?gy" for x y
  proof -
    from that have x: "x < ?gx" and y: "y < ?gy" by simp_all
    from block_cover[OF n0(1) le(1) x] obtain p where p: "p < ?nx"
      "(?gx div ?nx) * p \<le> x" "x < (?gx div ?nx) * p + ?cx p" by blast
    from block_cover[OF n0(2) le(2) y] obtain q where q: "q < ?ny"
      "(?gy div ?ny) * q \<le> y" "y < (?gy div ?ny) * q + ?cy q" by blast
    let ?r = "int (q * ?nx + p)"
    have "q * ?nx + p < (q + 1) * ?nx" using p(1) by simp
    also have "\<dots> \<le> ?ny * ?nx" using q(1) by (intro mult_le_mono1) simp
    finally have lt: "q * ?nx + p < ?nx * ?ny" by (simp add: mult.commute)
    have r: "0 \<le> ?r" "?r < int (?nx * ?ny)"
      using lt by (simp_all only: of_nat_0_le_iff of_nat_less_iff)
    have nr: "nat ?r = q * ?nx + p" by (rule nat_int)
    have md: "nat ?r mod ?nx = p" "nat ?r div ?nx = q"
      unfolding nr using p(1) by simp_all
    from sel[OF r] obtain L where L: "reader_selection npx npy ?r (gndx, gndy) = Inr L"
      "unat (l_offsx L) = (?gx div ?nx) * p"
      "unat (l_offsy L) = (?gy div ?ny) * q"
      "unat (l_ndx L) = ?cx p"
      "unat (l_ndy L) = ?cy q" unfolding md by blast
    have "in_block L x y"
      unfolding in_block_def in_selection_def fst_conv snd_conv L(2-5)
      using p(2,3) q(2,3) by blast
    with r L(1) show ?thesis by blast
  qed
  show ?thesis using A B C by blast
qed

theorem reader_selection_tiling_witness:
  "(1 :: size_t) \<le> 2 \<and> (2 :: size_t) \<le> 100 \<and> (1 :: size_t) \<le> 2 \<and> (2 :: size_t) \<le> 120 \<and>
   unat (2 :: size_t) * unat (2 :: size_t) \<le> INT_MAX \<and>
   (\<exists>L. reader_selection 2 2 3 (100, 120) = Inr L \<and>
        unat (l_offsx L) + unat (l_ndx L) \<le> unat (100 :: size_t) \<and>
        unat (l_offsy L) + unat (l_ndy L) \<le> unat (120 :: size_t) \<and>
        0 < unat (l_ndx L) \<and> 0 < unat (l_ndy L)) \<and>
   (\<exists>rank L. 0 \<le> rank \<and> rank < int (unat (2 :: size_t) * unat (2 :: size_t)) \<and>
        reader_selection 2 2 rank (100, 120) = Inr L \<and> in_block L 70 10)"
proof -
  have h: "(1 :: size_t) \<le> 2" "(2 :: size_t) \<le> 100" "(1 :: size_t) \<le> 2" "(2 :: size_t) \<le> 120"
    "unat (2 :: size_t) * unat (2 :: size_t) \<le> INT_MAX"
    by (simp_all add: INT_MAX_def)
  note t = reader_selection_tiling[OF h]
  have r: "(0 :: int) \<le> 3 \<and> 3 < int (unat (2 :: size_t) * unat (2 :: size_t))" by simp
  have c: "(70 :: nat) < unat (100 :: size_t) \<and> (10 :: nat) < unat (120 :: size_t)" by simp
  from t r have 1: "\<exists>L. reader_selection 2 2 3 (100, 120) = Inr L \<and>
        unat (l_offsx L) + unat (l_ndx L) \<le> unat (100 :: size_t) \<and>
        unat (l_offsy L) + unat (l_ndy L) \<le> unat (120 :: size_t) \<and>
        0 < unat (l_ndx L) \<and> 0 < unat (l_ndy L)" by blast
  from t c have 2: "\<exists>rank L. 0 \<le> rank \<and> rank < int (unat (2 :: size_t) * unat (2 :: size_t)) \<and>
        reader_selection 2 2 rank (100, 120) = Inr L \<and> in_block L 70 10" by blast
  from h 1 2 show ?thesis by blast
qed

subsection \<open>Redistribution\<close>

lemma length_copy_payload [simp]: "length (copy_payload sel dest p) = length dest"
  by (simp add: copy_payload_def)

lemma length_Get [simp]: "length (Get ps sel dest) = length dest"
  unfolding Get_def by (induction ps arbitrary: dest) simp_all









lemma length_resize [simp]: "length (resize n xs) = n"
  by (simp add: resize_def)













subsection \<open>The order of the steps\<close>

lemma upt_log_snoc: "map (\<lambda>k. (k, int k)) [0..<n] @ [(n, int n)] = map (\<lambda>k. (k, int k)) [0..<Suc n]"
  by simp





subsection \<open>The variable registry and the Python binding\<close>

lemma Lookup_Some:
  "Lookup reg name = Some h \<Longrightarrow> h < length reg \<and> v_name (reg ! h) = name"
  by (induction reg arbitrary: h) (auto split: if_splits)

lemma Lookup_append:
  "Lookup (reg @ [v]) name =
     (case Lookup reg name of
        Some h \<Rightarrow> Some h
      | None \<Rightarrow> if v_name v = name then Some (length reg) else None)"
  by (induction reg) (auto split: option.splits)

lemma Define_result:
  assumes "Define reg name ty shape start count = Inr (h, reg')"
  shows "Lookup reg' name = Some h" and "h < length reg'"
    and "v_type (reg' ! h) = ty" and "v_shape (reg' ! h) = shape"
    and "\<exists>new. reg' = reg @ new"
    and "other \<noteq> name \<Longrightarrow> Lookup reg' other = Lookup reg other"
proof -
  show "Lookup reg' name = Some h"
    using assms by (auto simp: Define_def Lookup_append split: option.splits if_splits)
  then show "h < length reg'" by (simp add: Lookup_Some)
  show "v_type (reg' ! h) = ty"
    using assms by (auto simp: Define_def split: option.splits if_splits)
  show "v_shape (reg' ! h) = shape"
    using assms by (auto simp: Define_def split: option.splits if_splits)
  show "\<exists>new. reg' = reg @ new"
    using assms by (auto simp: Define_def split: option.splits if_splits)
  show "Lookup reg' other = Lookup reg other" if "other \<noteq> name"
    using assms that by (auto simp: Define_def Lookup_append split: option.splits if_splits)
qed

text \<open>
  Claim C6. After a successful \<^verbatim>\<open>Define\<close> of a name, a second \<^verbatim>\<open>Define\<close> of that name with
  the same type and global shape returns the same handle and leaves the registry as it
  is; with a different type or shape it fails with \<^verbatim>\<open>DuplicateDefinition\<close>. A \<^verbatim>\<open>Define\<close>
  changes nothing but the registration of its name: every other name is looked up as
  before, and the variables defined before are kept.
\<close>

theorem idempotent_redefinition:
  assumes "Define reg name ty shape start count = Inr (h, reg')"
  shows "Define reg' name ty shape start' count' = Inr (h, reg') \<and>
         (ty' \<noteq> ty \<or> shape' \<noteq> shape \<longrightarrow>
            Define reg' name ty' shape' start' count' = Inl DuplicateDefinition) \<and>
         Lookup reg' name = Some h \<and>
         (\<forall>other. other \<noteq> name \<longrightarrow> Lookup reg' other = Lookup reg other) \<and>
         take (length reg) reg' = reg"
proof -
  note r = Define_result[OF assms]
  have 1: "Define reg' name ty shape start' count' = Inr (h, reg')"
    using r(1,3,4) by (simp add: Define_def)
  have 2: "Define reg' name ty' shape' start' count' = Inl DuplicateDefinition"
    if "ty' \<noteq> ty \<or> shape' \<noteq> shape"
    using r(1,3,4) that by (auto simp: Define_def)
  have 3: "take (length reg) reg' = reg" using r(5) by auto
  show ?thesis using 1 2 3 r(1,6) by blast
qed

theorem idempotent_redefinition_witness:
  "Define [] ''myArray'' ''float'' [100, 120] [0, 0] [50, 60] =
     Inr (0, [\<lparr>v_name = ''myArray'', v_type = ''float'', v_shape = [100, 120],
               v_start = [0, 0], v_count = [50, 60]\<rparr>]) \<and>
   Define [\<lparr>v_name = ''myArray'', v_type = ''float'', v_shape = [100, 120],
            v_start = [0, 0], v_count = [50, 60]\<rparr>]
     ''myArray'' ''float'' [100, 120] [50, 0] [50, 60] =
     Inr (0, [\<lparr>v_name = ''myArray'', v_type = ''float'', v_shape = [100, 120],
               v_start = [0, 0], v_count = [50, 60]\<rparr>]) \<and>
   Define [\<lparr>v_name = ''myArray'', v_type = ''float'', v_shape = [100, 120],
            v_start = [0, 0], v_count = [50, 60]\<rparr>]
     ''myArray'' ''double'' [100, 120] [50, 0] [50, 60] = Inl DuplicateDefinition"
proof -
  let ?v = "\<lparr>v_name = ''myArray'', v_type = ''float'', v_shape = [100, 120 :: nat],
               v_start = [0, 0 :: nat], v_count = [50, 60 :: nat]\<rparr>"
  have h: "Define [] ''myArray'' ''float'' [100, 120] [0, 0] [50, 60] = Inr (0, [?v])"
    by (simp add: Define_def)
  have ne: "''double'' \<noteq> ''float'' \<or> [100, 120 :: nat] \<noteq> [100, 120]" by simp
  from idempotent_redefinition[OF h, of "[50, 0]" "[50, 60]" "''double''" "[100, 120]"] ne h
  show ?thesis by blast
qed

text \<open>
  Claim C10. When \<^verbatim>\<open>DefineVariableInADIOS<T>\<close> returns, \<^verbatim>\<open>m_VariablePtr\<close> is the (non-null)
  address of the variable that the registry holds under the name of the \<^verbatim>\<open>VariablePy\<close>,
  a variable of element type \<open>T\<close>, and \<^verbatim>\<open>m_IsVariableDefined\<close> is true.
  \<^verbatim>\<open>WriteVariableInADIOS<T>\<close> then reaches \<^verbatim>\<open>m_Engine->Write\<close> with that variable. It checks
  nothing itself: with a null \<^verbatim>\<open>m_VariablePtr\<close>, or with an element type other than the
  one of the definition, its behaviour is undefined.
\<close>

theorem DefineVariableInADIOS_postcondition:
  assumes "DefineVariableInADIOS T adios variable = Inr (adios', variable')"
  shows "(\<exists>var. m_VariablePtr variable' = Some var \<and>
               Lookup adios' (m_Name variable) = Some var \<and>
               var < length adios' \<and> v_type (adios' ! var) = T \<and>
               WriteVariableInADIOS T adios' variable' array = Some (var, array)) \<and>
         m_IsVariableDefined variable' \<and>
         m_Name variable' = m_Name variable \<and>
         (\<forall>v. m_VariablePtr v = None \<longrightarrow> WriteVariableInADIOS T adios' v array = None) \<and>
         (\<forall>T'. T' \<noteq> T \<longrightarrow> WriteVariableInADIOS T' adios' variable' array = None)"
proof -
  from assms obtain var where
    d: "Define adios (m_Name variable) T (m_GlobalDimensions variable)
             (m_GlobalOffsets variable) (m_LocalDimensions variable) = Inr (var, adios')"
    and v: "variable' = variable\<lparr>m_VariablePtr := Some var, m_IsVariableDefined := True\<rparr>"
    by (auto simp: DefineVariableInADIOS_def split: sum.splits)
  note r = Define_result[OF d]
  show ?thesis using r(1-4) v by (auto simp: WriteVariableInADIOS_def)
qed

theorem DefineVariableInADIOS_postcondition_witness:
  "DefineVariableInADIOS ''float'' []
     \<lparr>m_Name = ''myArray'', m_LocalDimensions = [50, 60], m_GlobalDimensions = [100, 120],
      m_GlobalOffsets = [0, 0], m_VariablePtr = None, m_IsVariableDefined = False\<rparr> =
     Inr ([\<lparr>v_name = ''myArray'', v_type = ''float'', v_shape = [100, 120],
             v_start = [0, 0], v_count = [50, 60]\<rparr>],
          \<lparr>m_Name = ''myArray'', m_LocalDimensions = [50, 60], m_GlobalDimensions = [100, 120],
           m_GlobalOffsets = [0, 0], m_VariablePtr = Some 0, m_IsVariableDefined = True\<rparr>) \<and>
   (\<exists>var. m_VariablePtr
            \<lparr>m_Name = ''myArray'', m_LocalDimensions = [50, 60],
             m_GlobalDimensions = [100, 120], m_GlobalOffsets = [0, 0],
             m_VariablePtr = Some 0, m_IsVariableDefined = True\<rparr> = Some var \<and>
          Lookup [\<lparr>v_name = ''myArray'', v_type = ''float'', v_shape = [100, 120],
                    v_start = [0, 0], v_count = [50, 60]\<rparr>] ''myArray'' = Some var \<and>
          WriteVariableInADIOS ''float''
            [\<lparr>v_name = ''myArray'', v_type = ''float'', v_shape = [100, 120],
              v_start = [0, 0], v_count = [50, 60]\<rparr>]
            \<lparr>m_Name = ''myArray'', m_LocalDimensions = [50, 60],
             m_GlobalDimensions = [100, 120], m_GlobalOffsets = [0, 0],
             m_VariablePtr = Some 0, m_IsVariableDefined = True\<rparr> [1 :: rat, 2] =
            Some (var, [1, 2]))"
proof -
  let ?v = "\<lparr>m_Name = ''myArray'', m_LocalDimensions = [50, 60 :: nat],
      m_GlobalDimensions = [100, 120 :: nat],
      m_GlobalOffsets = [0, 0 :: nat], m_VariablePtr = None, m_IsVariableDefined = False\<rparr>"
  let ?v' = "\<lparr>m_Name = ''myArray'', m_LocalDimensions = [50, 60 :: nat],
      m_GlobalDimensions = [100, 120 :: nat],
      m_GlobalOffsets = [0, 0 :: nat], m_VariablePtr = Some 0, m_IsVariableDefined = True\<rparr>"
  let ?reg = "[\<lparr>v_name = ''myArray'', v_type = ''float'', v_shape = [100, 120 :: nat],
             v_start = [0, 0 :: nat], v_count = [50, 60 :: nat]\<rparr>]"
  have h: "DefineVariableInADIOS ''float'' [] ?v = Inr (?reg, ?v')"
    by (simp add: DefineVariableInADIOS_def Define_def)
  from DefineVariableInADIOS_postcondition[OF h, of "[1 :: rat, 2]"]
  have "\<exists>var. m_VariablePtr ?v' = Some var \<and> Lookup ?reg (m_Name ?v) = Some var \<and>
               var < length ?reg \<and> v_type (?reg ! var) = ''float'' \<and>
               WriteVariableInADIOS ''float'' ?reg ?v' [1 :: rat, 2] = Some (var, [1, 2])"
    by (rule conjunct1)
  then have "\<exists>var. m_VariablePtr ?v' = Some var \<and> Lookup ?reg ''myArray'' = Some var \<and>
               WriteVariableInADIOS ''float'' ?reg ?v' [1 :: rat, 2] = Some (var, [1, 2])"
    by auto
  with h show ?thesis by blast
qed

subsection \<open>The test matrix\<close>

text \<open>
  Claim C8, as the code has it. The twelve runs of the matrix use 2, 3, 4, 8 and 16
  processes. The writer side is decomposed 1x1, 2x1, 1x2, 2x2, 1x7 and 3x5; the reader
  side 1x1, 2x1, 1x2, 2x2, 1x7 and 5x3.
\<close>

theorem test_matrix_coverage:
  "map total_processes CreateRunParams = [2, 3, 3, 3, 3, 4, 4, 8, 8, 8, 16, 16] \<and>
   set (map writer_decomposition CreateRunParams) =
     {(1, 1), (2, 1), (1, 2), (2, 2), (1, 7), (3, 5)} \<and>
   set (map reader_decomposition CreateRunParams) =
     {(1, 1), (2, 1), (1, 2), (2, 2), (1, 7), (5, 3)}"
  by (auto simp: CreateRunParams_def mkRunParams_def total_processes_def nwriters_def
      nreaders_def writer_decomposition_def reader_decomposition_def)

text \<open>
  No run of the matrix decomposes either side 7x1, and none decomposes the reader side
  3x5: the matrix has 1x7 on both sides and 5x3 on the reader side instead.
\<close>

theorem test_matrix_counterexample:
  "(7, 1) \<notin> set (map writer_decomposition CreateRunParams) \<and>
   (7, 1) \<notin> set (map reader_decomposition CreateRunParams) \<and>
   (3, 5) \<notin> set (map reader_decomposition CreateRunParams)"
  by (simp add: CreateRunParams_def mkRunParams_def writer_decomposition_def
      reader_decomposition_def)

end
